theory Spec2Isabelle
  imports Main "HOL-Library.Sublist" "HOL-Library.Char_ord" "HOL-Library.List_Lexorder"
begin

section \<open>Strings\<close>

text \<open>
  A JavaScript string is modelled as a \<^typ>\<open>string\<close>, one \<^typ>\<open>char\<close> per code unit,
  read as ASCII: the white space of \<^verbatim>\<open>String.prototype.trim\<close> is TAB, LF, VT, FF, CR and
  SPACE, and \<^verbatim>\<open>toLowerCase\<close> maps \<^verbatim>\<open>A\<close>..\<^verbatim>\<open>Z\<close> to \<^verbatim>\<open>a\<close>..\<^verbatim>\<open>z\<close> and leaves every other
  code unit as it is. The empty string is the only falsy string.
\<close>

definition is_ws :: "char \<Rightarrow> bool" where
  "is_ws c = (c = CHR 0x09 \<or> c = CHR 0x0A \<or> c = CHR 0x0B \<or> c = CHR 0x0C \<or> c = CHR 0x0D
              \<or> c = CHR '' '')"

definition trim :: "string \<Rightarrow> string" where
  "trim s = rev (dropWhile is_ws (rev (dropWhile is_ws s)))"

definition lower_char :: "char \<Rightarrow> char" where
  "lower_char c =
     (if CHR ''A'' \<le> c \<and> c \<le> CHR ''Z'' then char_of (of_char c + (32::nat)) else c)"

definition toLowerCase :: "string \<Rightarrow> string" where
  "toLowerCase s = map lower_char s"

text \<open>\<^verbatim>\<open>s.includes(t)\<close>: \<open>t\<close> occurs in \<open>s\<close> as a contiguous run of code units.\<close>

fun str_includes :: "string \<Rightarrow> string \<Rightarrow> bool" where
  "str_includes [] t = (t = [])"
| "str_includes (c # cs) t = (prefix t (c # cs) \<or> str_includes cs t)"

text \<open>\<^verbatim>\<open>xs.join(sep)\<close> on an array of strings.\<close>

fun join :: "string \<Rightarrow> string list \<Rightarrow> string" where
  "join sep [] = []"
| "join sep [x] = x"
| "join sep (x # y # ys) = x @ sep @ join sep (y # ys)"

text \<open>
  \<^verbatim>\<open>.filter(Boolean)\<close> on an array of \<^verbatim>\<open>string | undefined\<close>: \<^verbatim>\<open>undefined\<close> and the empty
  string are dropped.
\<close>

fun filter_Boolean :: "string option list \<Rightarrow> string list" where
  "filter_Boolean [] = []"
| "filter_Boolean (None # xs) = filter_Boolean xs"
| "filter_Boolean (Some s # xs) = (if s = [] then filter_Boolean xs else s # filter_Boolean xs)"

text \<open>Truthiness of a value of type \<^verbatim>\<open>string | null\<close>.\<close>

fun truthy :: "string option \<Rightarrow> bool" where
  "truthy None = False"
| "truthy (Some s) = (s \<noteq> [])"

section \<open>Data model\<close>

datatype source_type = Mp4 | Hls

record VideoSource =
  label :: string
  stype :: source_type
  src :: string

record VideoItem =
  vid :: string
  title :: string
  description :: "string option"
  date :: "string option"
  duration :: "string option"
  tags :: "string list option"
  thumbnail :: "string option"
  sources :: "VideoSource list"

text \<open>The item type of \<^verbatim>\<open>hooks/useFilteredVideos.ts\<close> and of the page that uses the hook.\<close>

record HookVideoItem =
  h_id :: string
  h_title :: string
  h_src :: string
  h_tags :: "string list option"

section \<open>Catalog filter\<close>

text \<open>\<^verbatim>\<open>tags?.includes(activeTag)\<close>, read as a condition: \<^verbatim>\<open>undefined\<close> when there are no tags.\<close>

fun tags_include :: "string list option \<Rightarrow> string \<Rightarrow> bool" where
  "tags_include None t = False"
| "tags_include (Some ts) t = (t \<in> set ts)"

text \<open>\<^verbatim>\<open>useFilteredVideos\<close> of \<^verbatim>\<open>App.tsx\<close>.\<close>

definition useFilteredVideos :: "VideoItem list \<Rightarrow> string \<Rightarrow> string option \<Rightarrow> VideoItem list" where
  "useFilteredVideos all q activeTag =
     (let query = toLowerCase (trim q);
          bySearch =
            (if query = [] then all
             else filter (\<lambda>v.
                    list_ex (\<lambda>txt. str_includes (toLowerCase txt) query)
                      (filter_Boolean [Some (title v), description v, map_option (join '' '') (tags v)]))
                    all);
          byTag =
            (if \<not> truthy activeTag then bySearch
             else filter (\<lambda>v. tags_include (tags v) (the activeTag)) bySearch)
      in byTag)"

text \<open>\<^verbatim>\<open>useFilteredVideos\<close> of \<^verbatim>\<open>hooks/useFilteredVideos.ts\<close>.\<close>

definition useFilteredVideos_hook ::
  "HookVideoItem list \<Rightarrow> string \<Rightarrow> string option \<Rightarrow> HookVideoItem list" where
  "useFilteredVideos_hook videos query activeTag =
     (let list1 =
            (if trim query \<noteq> [] then
               (let lower = toLowerCase query
                in filter (\<lambda>v. str_includes (toLowerCase (h_title v)) lower) videos)
             else videos);
          list2 =
            (if truthy activeTag then filter (\<lambda>v. tags_include (h_tags v) (the activeTag)) list1
             else list1)
      in list2)"

text \<open>
  The text stage in the words of the specification: the normalised query \<open>nq\<close> is a
  substring of the case-folded title, or of the case-folded description, or of the
  case-folded tags joined by single spaces.
\<close>

definition matches_text :: "string \<Rightarrow> VideoItem \<Rightarrow> bool" where
  "matches_text nq v =
     (sublist nq (toLowerCase (title v))
      \<or> (case description v of None \<Rightarrow> False | Some d \<Rightarrow> sublist nq (toLowerCase d))
      \<or> (case tags v of None \<Rightarrow> False | Some ts \<Rightarrow> sublist nq (toLowerCase (join '' '' ts))))"

subsection \<open>Example catalogs\<close>

text \<open>The two items of the scenario of the specification, as items of \<^verbatim>\<open>App.tsx\<close>.\<close>

definition ex_v1 :: VideoItem where
  "ex_v1 = \<lparr>vid = ''v1'', title = ''Sample Video 1'', description = None, date = None,
     duration = None, tags = Some [''funny'', ''short''], thumbnail = None,
     sources = [\<lparr>label = ''720p MP4'', stype = Mp4, src = ''https://example.com/video1.mp4''\<rparr>]\<rparr>"

definition ex_v2 :: VideoItem where
  "ex_v2 = \<lparr>vid = ''v2'', title = ''Sample Video 2'',
     description = Some ''Recorded at the concert'', date = None,
     duration = None, tags = Some [''music'', ''live''], thumbnail = None,
     sources = [\<lparr>label = ''720p MP4'', stype = Mp4, src = ''https://example.com/video2.mp4''\<rparr>]\<rparr>"

text \<open>An item without a \<^verbatim>\<open>tags\<close> field.\<close>

definition ex_v3 :: VideoItem where
  "ex_v3 = \<lparr>vid = ''v3'', title = ''Sample Video 3'', description = None, date = None,
     duration = None, tags = None, thumbnail = None,
     sources = [\<lparr>label = ''720p MP4'', stype = Mp4, src = ''https://example.com/video3.mp4''\<rparr>]\<rparr>"

definition example_catalog :: "VideoItem list" where
  "example_catalog = [ex_v1, ex_v2, ex_v3]"

text \<open>An item that carries the empty string as a tag.\<close>

definition ex_blank_tag :: VideoItem where
  "ex_blank_tag = \<lparr>vid = ''v4'', title = ''Sample Video 4'', description = None, date = None,
     duration = None, tags = Some [[]], thumbnail = None,
     sources = [\<lparr>label = ''720p MP4'', stype = Mp4, src = ''https://example.com/video4.mp4''\<rparr>]\<rparr>"

text \<open>The constant \<^verbatim>\<open>VIDEOS\<close> of the page that uses the hook.\<close>

definition hook_v1 :: HookVideoItem where
  "hook_v1 = \<lparr>h_id = ''v1'', h_title = ''Sample Video 1'',
     h_src = ''https://www.w3schools.com/html/mov_bbb.mp4'', h_tags = Some [''funny'', ''short'']\<rparr>"

definition hook_v2 :: HookVideoItem where
  "hook_v2 = \<lparr>h_id = ''v2'', h_title = ''Sample Video 2'',
     h_src = ''https://www.w3schools.com/html/movie.mp4'', h_tags = Some [''music'', ''live'']\<rparr>"

text \<open>An item of the hook's type without a \<^verbatim>\<open>tags\<close> field.\<close>

definition hook_untagged :: HookVideoItem where
  "hook_untagged = \<lparr>h_id = ''v3'', h_title = ''Sample Video 3'',
     h_src = ''https://example.com/video3.mp4'', h_tags = None\<rparr>"

definition VIDEOS_hook :: "HookVideoItem list" where
  "VIDEOS_hook = [hook_v1, hook_v2]"

section \<open>Tag vocabulary\<close>

text \<open>
  A JavaScript \<^verbatim>\<open>Set\<close> of strings is the list of its elements in insertion order;
  \<^verbatim>\<open>Set.prototype.add\<close> appends a value that is not yet in it.
\<close>

definition Set_add :: "string \<Rightarrow> string list \<Rightarrow> string list" where
  "Set_add x st = (if x \<in> set st then st else st @ [x])"

text \<open>
  The array \<^verbatim>\<open>tags\<close> of \<^verbatim>\<open>UniqueTags\<close>:
  \<^verbatim>\<open>videos.forEach((v) => v.tags?.forEach((t) => set.add(t)))\<close>, then
  \<^verbatim>\<open>Array.from(set).sort()\<close>. The default sort of strings compares them code unit by code
  unit, which is the lexicographic order on \<^typ>\<open>string\<close>.
\<close>

definition UniqueTags_tags :: "VideoItem list \<Rightarrow> string list" where
  "UniqueTags_tags videos =
     sort (fold (\<lambda>v st. case tags v of None \<Rightarrow> st | Some ts \<Rightarrow> fold Set_add ts st) videos [])"

text \<open>
  The array \<^verbatim>\<open>tags\<close> of the \<^verbatim>\<open>ArchiveHome\<close> that takes the filtered videos:
  \<^verbatim>\<open>Array.from(new Set(videos.flatMap(v => v.tags || [])))\<close>.
\<close>

definition ArchiveHome_tags :: "HookVideoItem list \<Rightarrow> string list" where
  "ArchiveHome_tags videos =
     fold Set_add (concat (map (\<lambda>v. case h_tags v of None \<Rightarrow> [] | Some ts \<Rightarrow> ts) videos)) []"

section \<open>Playback session\<close>

text \<open>
  The component \<^verbatim>\<open>VideoPlayer\<close> as a state machine. The platform answers the two capability
  probes: \<^verbatim>\<open>Hls.isSupported()\<close> and whether
  \<^verbatim>\<open>el.canPlayType("application/vnd.apple.mpegurl")\<close> is a non-empty string.
\<close>

record platform =
  Hls_isSupported :: bool
  canPlayType_hls :: bool

text \<open>Of the video element, the \<^verbatim>\<open>src\<close> attribute: \<open>None\<close> when the attribute is absent.\<close>

record HTMLVideoElement =
  el_src :: "string option"

text \<open>
  An instance of the streaming client that has been created and not destroyed: its
  identity, and the URL given to \<^verbatim>\<open>loadSource\<close>. Every instance is attached to the
  element and has the \<^verbatim>\<open>MANIFEST_PARSED\<close> listener, since the effect does all three at once.
\<close>

record Hls_instance =
  hls_id :: nat
  hls_url :: string

text \<open>
  The state of the component. \<open>active\<close> is the position in \<^verbatim>\<open>video.sources\<close> of the
  object held by the state variable \<^verbatim>\<open>active\<close> (React compares states and effect
  dependencies by identity, and the objects of an array literal or of parsed JSON are
  distinct); \<open>el\<close> is \<^verbatim>\<open>videoRef.current\<close>; \<open>hls_live\<close> are the client instances alive;
  \<open>cleanup\<close> is the cleanup function returned by the last run of the effect, given by the
  client instance it closes over (\<open>Some None\<close>: it closes over \<^verbatim>\<open>hls = null\<close>); \<open>fresh\<close>
  is the identity of the next instance; \<open>mounted\<close> tells whether the component is mounted.
\<close>

record player =
  video :: VideoItem
  active :: nat
  canPlay :: bool
  el :: "HTMLVideoElement option"
  hls_live :: "Hls_instance list"
  cleanup :: "nat option option"
  fresh :: nat
  mounted :: bool

datatype error = TypeError

text \<open>The value of the state variable \<^verbatim>\<open>active\<close>; \<open>None\<close> is \<^verbatim>\<open>undefined\<close>.\<close>

definition activeSource :: "player \<Rightarrow> VideoSource option" where
  "activeSource s =
     (if active s < length (sources (video s)) then Some (sources (video s) ! active s) else None)"

text \<open>
  The body of the effect. Without an element it returns at once, with no cleanup
  function; reading \<^verbatim>\<open>active.type\<close> of \<^verbatim>\<open>undefined\<close> throws.
\<close>

definition effect :: "platform \<Rightarrow> player \<Rightarrow> error + player" where
  "effect pf s =
     (case el s of
        None \<Rightarrow> Inr (s\<lparr>cleanup := None\<rparr>)
      | Some e \<Rightarrow>
          (case activeSource s of
             None \<Rightarrow> Inl TypeError
           | Some a \<Rightarrow>
               if stype a = Hls then
                 if Hls_isSupported pf then
                   Inr (s\<lparr>hls_live := hls_live s @ [\<lparr>hls_id = fresh s, hls_url = src a\<rparr>],
                          fresh := Suc (fresh s),
                          cleanup := Some (Some (fresh s))\<rparr>)
                 else if canPlayType_hls pf then
                   Inr (s\<lparr>el := Some (e\<lparr>el_src := Some (src a)\<rparr>), canPlay := True,
                          cleanup := Some None\<rparr>)
                 else Inr (s\<lparr>canPlay := False, cleanup := Some None\<rparr>)
               else
                 Inr (s\<lparr>el := Some (e\<lparr>el_src := Some (src a)\<rparr>), canPlay := True,
                        cleanup := Some None\<rparr>)))"

text \<open>
  The cleanup function of the effect: \<^verbatim>\<open>if (hls) hls.destroy()\<close>, then the element is
  paused, loses its \<^verbatim>\<open>src\<close> attribute and is reloaded. A destroyed instance is not alive
  any more and emits no event.
\<close>

definition run_cleanup :: "player \<Rightarrow> player" where
  "run_cleanup s =
     (case cleanup s of
        None \<Rightarrow> s
      | Some h \<Rightarrow>
          s\<lparr>hls_live := (case h of None \<Rightarrow> hls_live s
                         | Some i \<Rightarrow> filter (\<lambda>x. hls_id x \<noteq> i) (hls_live s)),
            el := map_option (\<lambda>e. e\<lparr>el_src := None\<rparr>) (el s),
            cleanup := None\<rparr>)"

text \<open>
  The first render: \<^verbatim>\<open>useState(video.sources[0])\<close>, \<^verbatim>\<open>useState(false)\<close>, and the video
  element of the rendered tree in the ref. Mounting then runs the effect.
\<close>

definition VideoPlayer_init :: "VideoItem \<Rightarrow> player" where
  "VideoPlayer_init v =
     \<lparr>video = v, active = 0, canPlay = False, el = Some \<lparr>el_src = None\<rparr>, hls_live = [],
      cleanup = None, fresh = 0, mounted = True\<rparr>"

definition VideoPlayer_open :: "platform \<Rightarrow> VideoItem \<Rightarrow> error + player" where
  "VideoPlayer_open pf v = effect pf (VideoPlayer_init v)"

text \<open>
  \<^verbatim>\<open>setActive\<close> with the source at position \<open>i\<close>: the same object leaves the state as it
  is; another one is stored, and since the dependency \<^verbatim>\<open>[active]\<close> has changed, the cleanup
  of the previous run of the effect runs and then the effect.
\<close>

definition setActive :: "platform \<Rightarrow> nat \<Rightarrow> player \<Rightarrow> error + player" where
  "setActive pf i s = (if i = active s then Inr s else effect pf ((run_cleanup s)\<lparr>active := i\<rparr>))"

text \<open>
  What can happen to an open player: a click on the \<open>i\<close>-th button of \<^verbatim>\<open>SourceSelector\<close>
  (there is one button for each element of \<^verbatim>\<open>video.sources\<close>), the event
  \<^verbatim>\<open>MANIFEST_PARSED\<close> of a client instance (only an instance alive emits it), and closing
  the player, which unmounts the component and runs the cleanup.
\<close>

datatype event = Select nat | ManifestParsed nat | Close

fun step :: "platform \<Rightarrow> event \<Rightarrow> player \<Rightarrow> error + player" where
  "step pf (Select i) s =
     (if mounted s \<and> i < length (sources (video s)) then setActive pf i s else Inr s)"
| "step pf (ManifestParsed h) s =
     Inr (if mounted s \<and> list_ex (\<lambda>x. hls_id x = h) (hls_live s) then s\<lparr>canPlay := True\<rparr> else s)"
| "step pf Close s = Inr (if mounted s then (run_cleanup s)\<lparr>mounted := False\<rparr> else s)"

fun run :: "platform \<Rightarrow> event list \<Rightarrow> player \<Rightarrow> error + player" where
  "run pf [] s = Inr s"
| "run pf (e # es) s = (case step pf e s of Inl x \<Rightarrow> Inl x | Inr s' \<Rightarrow> run pf es s')"

text \<open>A playback session: the player is opened on an item, then the events happen.\<close>

definition session :: "platform \<Rightarrow> VideoItem \<Rightarrow> event list \<Rightarrow> error + player" where
  "session pf v es = (case VideoPlayer_open pf v of Inl x \<Rightarrow> Inl x | Inr s \<Rightarrow> run pf es s)"

text \<open>
  The playback resources attached to the element: the client instances alive, and the
  media source assigned through the \<^verbatim>\<open>src\<close> attribute.
\<close>

definition attached :: "player \<Rightarrow> nat" where
  "attached s =
     length (hls_live s)
     + (case el s of None \<Rightarrow> 0 | Some e \<Rightarrow> (case el_src e of None \<Rightarrow> 0 | Some u \<Rightarrow> 1))"

text \<open>
  What holds of every state of a session on the item \<open>v\<close>: the active position is in
  range; a pending cleanup that closes over a client instance means that this instance is
  the only one alive and the element has no \<^verbatim>\<open>src\<close>; any other pending cleanup means
  that no instance is alive; without a pending cleanup the component is unmounted and
  nothing is attached.
\<close>

definition player_inv :: "platform \<Rightarrow> VideoItem \<Rightarrow> player \<Rightarrow> bool" where
  "player_inv pf v s \<longleftrightarrow>
     video s = v \<and> active s < length (sources v) \<and> el s \<noteq> None
     \<and> (case cleanup s of
          None \<Rightarrow> hls_live s = [] \<and> el_src (the (el s)) = None \<and> \<not> mounted s
        | Some None \<Rightarrow> hls_live s = [] \<and> mounted s
        | Some (Some i) \<Rightarrow> (\<exists>u. hls_live s = [\<lparr>hls_id = i, hls_url = u\<rparr>])
                            \<and> el_src (the (el s)) = None \<and> mounted s)
     \<and> (\<not> Hls_isSupported pf \<longrightarrow> hls_live s = [])
     \<and> (stype (sources v ! active s) = Hls \<and> \<not> Hls_isSupported pf \<and> \<not> canPlayType_hls pf
          \<longrightarrow> \<not> canPlay s \<and> el_src (the (el s)) = None)"

subsection \<open>Example items and platforms\<close>

text \<open>The item of the help text of the page: an adaptive source, then a progressive one.\<close>

definition my_001 :: VideoItem where
  "my_001 = \<lparr>vid = ''my-001'', title = ''My Archived Talk'',
     description = Some ''Conference 2023, Room A'', date = Some ''2023-09-18'',
     duration = Some ''45:12'', tags = Some [''talk'', ''conference''],
     thumbnail = Some ''https://.../thumb.jpg'',
     sources = [\<lparr>label = ''Auto (HLS)'', stype = Hls, src = ''https://.../playlist.m3u8''\<rparr>,
                \<lparr>label = ''720p MP4'', stype = Mp4, src = ''https://.../video-720.mp4''\<rparr>]\<rparr>"

definition pf_mse :: platform where
  "pf_mse = \<lparr>Hls_isSupported = True, canPlayType_hls = False\<rparr>"

definition pf_none :: platform where
  "pf_none = \<lparr>Hls_isSupported = False, canPlayType_hls = False\<rparr>"

section \<open>Strings: basic facts\<close>

lemma trim_Nil: "trim [] = []"
  by (simp add: trim_def)

lemma str_includes_sublist: "str_includes s t = sublist t s"
  by (induction s) (auto simp: sublist_Cons_right)

lemma is_ws_of_char: "is_ws c \<longleftrightarrow> (of_char c :: nat) \<in> {9, 10, 11, 12, 13, 32}"
  by (cases c) (auto simp: is_ws_def)

lemma is_ws_lower_char: "is_ws (lower_char c) = is_ws c"
  by (auto simp: is_ws_of_char lower_char_def less_eq_char_def)

lemma dropWhile_ws_lower:
  "dropWhile is_ws (map lower_char s) = map lower_char (dropWhile is_ws s)"
  by (induction s) (auto simp: is_ws_lower_char)

lemma trim_toLowerCase: "trim (toLowerCase s) = toLowerCase (trim s)"
  by (simp add: trim_def toLowerCase_def dropWhile_ws_lower rev_map)

lemma dropWhile_ws_append: "list_all is_ws l \<Longrightarrow> dropWhile is_ws (l @ s) = dropWhile is_ws s"
  by (induction l) auto

lemma trim_surrounding:
  assumes "list_all is_ws l" "list_all is_ws r"
  shows "trim (l @ q @ r) = trim q"
proof -
  have r: "list_all is_ws (rev r)"
    using assms(2) by (simp add: list_all_iff)
  have "dropWhile is_ws (rev (dropWhile is_ws (l @ q @ r)))
        = dropWhile is_ws (rev (dropWhile is_ws q))"
  proof (cases "list_all is_ws q")
    case True
    have "dropWhile is_ws (l @ q @ r) = []"
      using True assms by (auto simp: dropWhile_eq_Nil_conv list_all_iff)
    moreover have "dropWhile is_ws q = []"
      using True by (auto simp: dropWhile_eq_Nil_conv list_all_iff)
    ultimately show ?thesis by (simp only:)
  next
    case False
    then have "dropWhile is_ws q \<noteq> []"
      by (simp add: list_all_iff)
    then have "dropWhile is_ws (q @ r) = dropWhile is_ws q @ r"
      by (metis dropWhile_append1 dropWhile_eq_Nil_conv)
    then show ?thesis
      using assms(1) r by (simp add: dropWhile_ws_append)
  qed
  then show ?thesis by (simp add: trim_def)
qed

section \<open>Filter: the two stages\<close>

lemma text_stage_matches:
  assumes "query \<noteq> []"
  shows "list_ex (\<lambda>txt. str_includes (toLowerCase txt) query)
           (filter_Boolean [Some (title v), description v, map_option (join '' '') (tags v)])
         \<longleftrightarrow> matches_text query v"
  using assms
  by (cases "description v"; cases "tags v")
     (auto simp: matches_text_def str_includes_sublist toLowerCase_def)

text \<open>
  The filter of \<^verbatim>\<open>App.tsx\<close> keeps, in catalog order, the items that pass the text
  stage and, when the active tag is truthy, the tag stage.
\<close>

lemma useFilteredVideos_char:
  "useFilteredVideos C q t =
     filter (\<lambda>v. matches_text (toLowerCase (trim q)) v
                \<and> (truthy t \<longrightarrow> tags_include (tags v) (the t))) C"
proof (cases "toLowerCase (trim q) = []")
  case True
  then show ?thesis
    by (simp add: useFilteredVideos_def matches_text_def)
next
  case False
  show ?thesis
    unfolding useFilteredVideos_def Let_def text_stage_matches [OF False]
    using False by (auto intro: filter_cong)
qed

lemma useFilteredVideos_hook_char:
  "useFilteredVideos_hook H q t =
     filter (\<lambda>v. (trim q \<noteq> [] \<longrightarrow> sublist (toLowerCase q) (toLowerCase (h_title v)))
                \<and> (truthy t \<longrightarrow> tags_include (h_tags v) (the t))) H"
  by (auto simp: useFilteredVideos_hook_def str_includes_sublist intro: filter_cong)

lemma tags_include_iff: "tags_include tg t \<longleftrightarrow> (\<exists>ts. tg = Some ts \<and> t \<in> set ts)"
  by (cases tg) auto

section \<open>Filter: identity\<close>

text \<open>
  C4. With the empty query and no active tag, both filters return the catalog as it is.
\<close>

theorem filter_empty_query_no_tag_identity:
  "useFilteredVideos C [] None = C \<and> useFilteredVideos_hook H [] None = H"
  by (simp add: useFilteredVideos_def useFilteredVideos_hook_def trim_Nil toLowerCase_def)

section \<open>Filter: text search\<close>

text \<open>
  C1, as stated, fails when a tag is active: in the example catalog, with the query
  \<open>sample\<close> and the tag \<open>music\<close>, the first item is excluded although its title
  contains the query.
\<close>

theorem text_match_excluded_by_tag_counterexample:
  "ex_v1 \<in> set example_catalog
   \<and> ex_v1 \<notin> set (useFilteredVideos example_catalog ''sample'' (Some ''music''))
   \<and> sublist (toLowerCase ''sample'') (toLowerCase (title ex_v1))"
  by code_simp

text \<open>
  C1, amended. For the filter of \<^verbatim>\<open>App.tsx\<close>, every catalog, every query and every tag
  selection: each returned item contains the trimmed, case-folded query in its case-folded
  title, description or space-joined tags; and each item of the catalog that is not
  returned either matches none of the three fields or lacks the (non-empty) active tag.
\<close>

theorem filter_text_stage_sound_and_complete:
  "(\<forall>v \<in> set (useFilteredVideos C q t). matches_text (toLowerCase (trim q)) v)
   \<and> (\<forall>v \<in> set C - set (useFilteredVideos C q t).
        \<not> matches_text (toLowerCase (trim q)) v
        \<or> (\<exists>tg. t = Some tg \<and> tg \<noteq> [] \<and> \<not> (\<exists>ts. tags v = Some ts \<and> tg \<in> set ts)))"
proof -
  have "\<not> tags_include (tags v) (the t)
        \<Longrightarrow> truthy t \<Longrightarrow> \<exists>tg. t = Some tg \<and> tg \<noteq> [] \<and> \<not> (\<exists>ts. tags v = Some ts \<and> tg \<in> set ts)"
    for v
    by (cases t) (auto simp: tags_include_iff)
  then show ?thesis
    unfolding useFilteredVideos_char by auto
qed

theorem filter_text_stage_sound_and_complete_witness:
  "ex_v2 \<in> set (useFilteredVideos example_catalog '' Sample '' (Some ''music''))
   \<and> matches_text ''sample'' ex_v2
   \<and> ex_v1 \<in> set example_catalog - set (useFilteredVideos example_catalog '' Sample '' (Some ''music''))
   \<and> matches_text ''sample'' ex_v1
   \<and> ''music'' \<notin> set (the (tags ex_v1))"
proof -
  have nq: "toLowerCase (trim '' Sample '') = ''sample''"
    by code_simp
  have a: "ex_v2 \<in> set (useFilteredVideos example_catalog '' Sample '' (Some ''music''))"
    by code_simp
  have b: "ex_v1 \<in> set example_catalog - set (useFilteredVideos example_catalog '' Sample '' (Some ''music''))"
    by code_simp
  have c: "matches_text ''sample'' ex_v1"
    by code_simp
  have d: "tags ex_v1 = Some [''funny'', ''short'']"
    by (simp add: ex_v1_def)
  from filter_text_stage_sound_and_complete [of example_catalog "'' Sample ''" "Some ''music''"]
  have "matches_text ''sample'' ex_v2" and "''music'' \<notin> set (the (tags ex_v1))"
    using a b c d unfolding nq by auto
  with a b c show ?thesis by simp
qed

section \<open>Filter: query normalisation\<close>

text \<open>
  The filter of \<^verbatim>\<open>App.tsx\<close> matches with \<^verbatim>\<open>q.trim().toLowerCase()\<close>: white space around
  the query and the case of its letters do not change the result.
\<close>

lemma useFilteredVideos_normalises_query:
  "(list_all is_ws l \<and> list_all is_ws r
      \<longrightarrow> useFilteredVideos C (l @ q @ r) t = useFilteredVideos C q t)
   \<and> (toLowerCase q = toLowerCase q' \<longrightarrow> useFilteredVideos C q t = useFilteredVideos C q' t)"
proof -
  have "toLowerCase (trim q) = toLowerCase (trim q')" if "toLowerCase q = toLowerCase q'"
    using that trim_toLowerCase [of q] trim_toLowerCase [of q'] by simp
  then show ?thesis
    by (auto simp: useFilteredVideos_char trim_surrounding)
qed

text \<open>The hook folds the case of the query as well.\<close>

lemma useFilteredVideos_hook_folds_case:
  assumes "toLowerCase q = toLowerCase q'"
  shows "useFilteredVideos_hook H q t = useFilteredVideos_hook H q' t"
proof -
  have "toLowerCase (trim q) = toLowerCase (trim q')"
    using assms trim_toLowerCase [of q] trim_toLowerCase [of q'] by simp
  then have "trim q = [] \<longleftrightarrow> trim q' = []"
    unfolding toLowerCase_def by (metis map_is_Nil_conv)
  then show ?thesis
    using assms by (simp add: useFilteredVideos_hook_def)
qed

text \<open>
  C2. The hook tests \<^verbatim>\<open>query.trim()\<close> for emptiness only and matches with the untrimmed
  \<^verbatim>\<open>query.toLowerCase()\<close>: on its own catalog the query \<open>video 2\<close> finds the second
  item, and the same query followed by one space finds nothing. The filter of
  \<^verbatim>\<open>App.tsx\<close> returns the second item for both.
\<close>

theorem hook_query_not_trimmed:
  "useFilteredVideos_hook VIDEOS_hook ''video 2'' None = [hook_v2]
   \<and> useFilteredVideos_hook VIDEOS_hook ''video 2 '' None = []
   \<and> useFilteredVideos example_catalog ''video 2'' None = [ex_v2]
   \<and> useFilteredVideos example_catalog ''video 2 '' None = [ex_v2]"
  by code_simp

section \<open>Filter: tag stage\<close>

text \<open>
  C3, as stated, fails for the empty string as a tag: \<^verbatim>\<open>!activeTag\<close> holds for it, so the
  tag stage is skipped and an item without that tag is returned.
\<close>

theorem empty_tag_not_filtered_counterexample:
  "[] \<in> set (the (tags ex_blank_tag))
   \<and> ex_v1 \<in> set (useFilteredVideos [ex_blank_tag, ex_v1] [] (Some []))
   \<and> [] \<notin> set (the (tags ex_v1))"
  by code_simp

text \<open>
  C3, amended. For every catalog and every non-empty tag \<open>t\<close>, the filter with the empty
  query and \<open>t\<close> returns exactly the items whose tags include \<open>t\<close>, in catalog order, and
  only items of the result for the empty query and no tag; with a query and a non-empty
  tag, an item is returned exactly when it is in the catalog, passes the text stage and
  has the tag. The hook's tag stage does the same.
\<close>

theorem filter_tag_stage_conjunction:
  assumes "t \<noteq> []"
  shows "useFilteredVideos C [] (Some t) = filter (\<lambda>v. \<exists>ts. tags v = Some ts \<and> t \<in> set ts) C
    \<and> set (useFilteredVideos C [] (Some t)) \<subseteq> set (useFilteredVideos C [] None)
    \<and> (v \<in> set (useFilteredVideos C q (Some t))
         \<longleftrightarrow> v \<in> set C \<and> matches_text (toLowerCase (trim q)) v
              \<and> (\<exists>ts. tags v = Some ts \<and> t \<in> set ts))
    \<and> useFilteredVideos_hook H [] (Some t) = filter (\<lambda>h. \<exists>ts. h_tags h = Some ts \<and> t \<in> set ts) H"
proof -
  have "matches_text [] x" for x
    by (simp add: matches_text_def)
  then show ?thesis
    using assms
    by (auto simp: useFilteredVideos_char useFilteredVideos_hook_char trim_Nil toLowerCase_def
          tags_include_iff intro: filter_cong)
qed

theorem filter_tag_stage_conjunction_witness:
  "useFilteredVideos example_catalog [] (Some ''music'') = [ex_v2]
   \<and> useFilteredVideos example_catalog [] None = [ex_v1, ex_v2, ex_v3]
   \<and> ex_v2 \<in> set (useFilteredVideos example_catalog ''Concert'' (Some ''music''))
   \<and> useFilteredVideos_hook VIDEOS_hook [] (Some ''music'') = [hook_v2]"
proof -
  have ne: "''music'' \<noteq> []"
    by simp
  have f: "filter (\<lambda>v. \<exists>ts. tags v = Some ts \<and> ''music'' \<in> set ts) example_catalog = [ex_v2]"
    by (simp add: example_catalog_def ex_v1_def ex_v2_def ex_v3_def)
  have g: "filter (\<lambda>h. \<exists>ts. h_tags h = Some ts \<and> ''music'' \<in> set ts) VIDEOS_hook = [hook_v2]"
    by (simp add: VIDEOS_hook_def hook_v1_def hook_v2_def)
  have m: "ex_v2 \<in> set example_catalog \<and> matches_text (toLowerCase (trim ''Concert'')) ex_v2"
    by code_simp
  have t: "\<exists>ts. tags ex_v2 = Some ts \<and> ''music'' \<in> set ts"
    by (simp add: ex_v2_def)
  have n: "useFilteredVideos example_catalog [] None = [ex_v1, ex_v2, ex_v3]"
    by code_simp
  show ?thesis
    using filter_tag_stage_conjunction [OF ne, of example_catalog ex_v2 "''Concert''" VIDEOS_hook]
      f g m t n by simp
qed

text \<open>
  C10. When a tag filter is active (the active tag is a non-empty string), an item is
  returned exactly when it is returned without the tag filter and the active tag, as it
  is, equals one of the item's tags; an item without a \<^verbatim>\<open>tags\<close> field is never returned.
  Both filters behave so.
\<close>

theorem tag_stage_exact_match:
  assumes "t \<noteq> []"
  shows "(v \<in> set (useFilteredVideos C q (Some t))
          \<longleftrightarrow> v \<in> set (useFilteredVideos C q None) \<and> (\<exists>ts. tags v = Some ts \<and> t \<in> set ts))
    \<and> (tags v = None \<longrightarrow> v \<notin> set (useFilteredVideos C q (Some t)))
    \<and> (h \<in> set (useFilteredVideos_hook H q (Some t))
          \<longleftrightarrow> h \<in> set (useFilteredVideos_hook H q None) \<and> (\<exists>ts. h_tags h = Some ts \<and> t \<in> set ts))
    \<and> (h_tags h = None \<longrightarrow> h \<notin> set (useFilteredVideos_hook H q (Some t)))"
  using assms
  by (auto simp: useFilteredVideos_char useFilteredVideos_hook_char tags_include_iff)

text \<open>
  At the example catalog: the tag \<open>Music\<close> does not select the item tagged \<open>music\<close>, nor
  does \<open>music\<close> followed by a space, and the item without tags is excluded by the tag
  \<open>music\<close>.
\<close>

theorem tag_stage_exact_match_witness:
  "ex_v2 \<in> set (useFilteredVideos example_catalog [] None)
   \<and> ex_v2 \<in> set (useFilteredVideos example_catalog [] (Some ''music''))
   \<and> ex_v2 \<notin> set (useFilteredVideos example_catalog [] (Some ''Music''))
   \<and> ex_v2 \<notin> set (useFilteredVideos example_catalog [] (Some ''music ''))
   \<and> ex_v3 \<in> set (useFilteredVideos example_catalog [] None)
   \<and> ex_v3 \<notin> set (useFilteredVideos example_catalog [] (Some ''music''))
   \<and> hook_v2 \<notin> set (useFilteredVideos_hook VIDEOS_hook [] (Some ''Music''))
   \<and> hook_untagged \<notin> set (useFilteredVideos_hook [hook_v1, hook_untagged] [] (Some ''funny''))"
proof -
  have n: "ex_v2 \<in> set (useFilteredVideos example_catalog [] None)"
          "ex_v3 \<in> set (useFilteredVideos example_catalog [] None)"
    by code_simp+
  have t2: "tags ex_v2 = Some [''music'', ''live'']"
    by (simp add: ex_v2_def)
  have t3: "tags ex_v3 = None"
    by (simp add: ex_v3_def)
  have h2: "h_tags hook_v2 = Some [''music'', ''live'']"
    by (simp add: hook_v2_def)
  have a: "ex_v2 \<in> set (useFilteredVideos example_catalog [] (Some ''music''))"
    using tag_stage_exact_match [of "''music''" ex_v2 example_catalog "[]"] n t2 by simp
  have b: "ex_v2 \<notin> set (useFilteredVideos example_catalog [] (Some ''Music''))"
    using tag_stage_exact_match [of "''Music''" ex_v2 example_catalog "[]"] t2 by simp
  have c: "ex_v2 \<notin> set (useFilteredVideos example_catalog [] (Some ''music ''))"
    using tag_stage_exact_match [of "''music ''" ex_v2 example_catalog "[]"] t2 by simp
  have d: "ex_v3 \<notin> set (useFilteredVideos example_catalog [] (Some ''music''))"
    using tag_stage_exact_match [of "''music''" ex_v3 example_catalog "[]"] t3 by simp
  have e: "hook_v2 \<notin> set (useFilteredVideos_hook VIDEOS_hook [] (Some ''Music''))"
    using tag_stage_exact_match [of "''Music''" _ _ _ hook_v2 VIDEOS_hook] h2 by simp
  have h3: "h_tags hook_untagged = None"
    by (simp add: hook_untagged_def)
  have f: "hook_untagged \<notin> set (useFilteredVideos_hook [hook_v1, hook_untagged] [] (Some ''funny''))"
    using tag_stage_exact_match [of "''funny''" _ _ _ hook_untagged "[hook_v1, hook_untagged]"] h3
    by simp
  from n a b c d e f show ?thesis by simp
qed

section \<open>Tag vocabulary: facts\<close>

lemma set_fold_Set_add: "set (fold Set_add xs st) = set xs \<union> set st"
  by (induction xs arbitrary: st) (auto simp: Set_add_def)

lemma distinct_fold_Set_add: "distinct st \<Longrightarrow> distinct (fold Set_add xs st)"
  by (induction xs arbitrary: st) (auto simp: Set_add_def)

lemma set_collect_tags:
  "set (fold (\<lambda>v st. case tags v of None \<Rightarrow> st | Some ts \<Rightarrow> fold Set_add ts st) vs st)
   = (\<Union>v \<in> set vs. case tags v of None \<Rightarrow> {} | Some ts \<Rightarrow> set ts) \<union> set st"
  by (induction vs arbitrary: st) (auto simp: set_fold_Set_add split: option.splits)

lemma distinct_collect_tags:
  "distinct st \<Longrightarrow>
   distinct (fold (\<lambda>v st. case tags v of None \<Rightarrow> st | Some ts \<Rightarrow> fold Set_add ts st) vs st)"
  by (induction vs arbitrary: st) (auto simp: distinct_fold_Set_add split: option.splits)

text \<open>
  The tags of \<^verbatim>\<open>UniqueTags\<close> are the union of the tag sets of the items, without
  duplicates, in ascending lexicographic order: a function of that union alone.
\<close>

lemma UniqueTags_tags_sorted_union:
  "UniqueTags_tags C
   = sorted_list_of_set (\<Union>v \<in> set C. case tags v of None \<Rightarrow> {} | Some ts \<Rightarrow> set ts)"
proof -
  let ?xs = "fold (\<lambda>v st. case tags v of None \<Rightarrow> st | Some ts \<Rightarrow> fold Set_add ts st) C []"
  have d: "distinct ?xs"
    by (rule distinct_collect_tags) simp
  have "sorted_list_of_set (set ?xs) = sort (remdups ?xs)"
    by (rule sorted_list_of_set_sort_remdups)
  also have "\<dots> = sort ?xs"
    using d by (simp add: distinct_remdups_id)
  finally show ?thesis
    by (simp add: UniqueTags_tags_def set_collect_tags)
qed

lemma ArchiveHome_tags_distinct_union:
  "distinct (ArchiveHome_tags H)
   \<and> set (ArchiveHome_tags H) = (\<Union>v \<in> set H. case h_tags v of None \<Rightarrow> {} | Some ts \<Rightarrow> set ts)"
proof -
  have "set (concat (map (\<lambda>v. case h_tags v of None \<Rightarrow> [] | Some ts \<Rightarrow> ts) H))
        = (\<Union>v \<in> set H. case h_tags v of None \<Rightarrow> {} | Some ts \<Rightarrow> set ts)"
    by (induction H) (auto split: option.splits)
  then show ?thesis
    by (simp add: ArchiveHome_tags_def distinct_fold_Set_add set_fold_Set_add)
qed

text \<open>
  C5. The tags of the \<^verbatim>\<open>ArchiveHome\<close> that takes the filtered videos are not sorted: on
  the constant \<^verbatim>\<open>VIDEOS\<close> of that page they come in order of first occurrence, while
  \<^verbatim>\<open>UniqueTags\<close> sorts the same tags.
\<close>

theorem ArchiveHome_tags_not_sorted:
  "ArchiveHome_tags VIDEOS_hook = [''funny'', ''short'', ''music'', ''live'']
   \<and> \<not> sorted (ArchiveHome_tags VIDEOS_hook)
   \<and> UniqueTags_tags [ex_v1, ex_v2] = [''funny'', ''live'', ''music'', ''short'']"
  by code_simp

section \<open>Playback session: invariant\<close>

lemma inv_open:
  assumes "sources v \<noteq> []"
  shows "\<exists>s. VideoPlayer_open pf v = Inr s \<and> player_inv pf v s"
  using assms
  by (auto simp: VideoPlayer_open_def VideoPlayer_init_def effect_def activeSource_def
        player_inv_def)

lemma run_cleanup_facts:
  assumes "player_inv pf v s"
  shows "hls_live (run_cleanup s) = []" "\<exists>e. el (run_cleanup s) = Some e \<and> el_src e = None"
    "cleanup (run_cleanup s) = None" "video (run_cleanup s) = v"
    "canPlay (run_cleanup s) = canPlay s" "mounted (run_cleanup s) = mounted s"
    "active (run_cleanup s) = active s"
  using assms
  by (auto simp: player_inv_def run_cleanup_def split: option.splits)

lemma inv_attach:
  assumes "player_inv pf v s" "mounted s" "i < length (sources v)"
  shows "\<exists>s'. effect pf ((run_cleanup s)\<lparr>active := i\<rparr>) = Inr s' \<and> player_inv pf v s'"
proof -
  let ?c = "(run_cleanup s)\<lparr>active := i\<rparr>"
  from run_cleanup_facts [OF assms(1)] obtain e where
    c: "hls_live ?c = []" "el ?c = Some e" "el_src e = None" "video ?c = v" "active ?c = i"
       "mounted ?c"
    using assms(2) by auto
  show ?thesis
    using c assms(3)
    by (auto simp: effect_def activeSource_def player_inv_def)
qed

lemma inv_step:
  assumes "player_inv pf v s"
  shows "\<exists>s'. step pf e s = Inr s' \<and> player_inv pf v s'"
proof (cases e)
  case (Select i)
  show ?thesis
  proof (cases "mounted s \<and> i < length (sources (video s)) \<and> i \<noteq> active s")
    case True
    then have "i < length (sources v)" "mounted s"
      using assms by (auto simp: player_inv_def)
    from inv_attach [OF assms this(2) this(1)] True Select show ?thesis
      by (simp add: setActive_def)
  next
    case False
    then have "step pf e s = Inr s"
      using Select by (auto simp: setActive_def)
    then show ?thesis
      using assms by simp
  qed
next
  case (ManifestParsed h)
  then show ?thesis
    using assms by (auto simp: player_inv_def list_ex_iff split: option.splits)
next
  case Close
  show ?thesis
  proof (cases "mounted s")
    case True
    from run_cleanup_facts [OF assms] obtain e' where
      "hls_live (run_cleanup s) = []" "el (run_cleanup s) = Some e'" "el_src e' = None"
      "cleanup (run_cleanup s) = None" "video (run_cleanup s) = v"
      "canPlay (run_cleanup s) = canPlay s" "active (run_cleanup s) = active s"
      by auto
    then show ?thesis
      using Close True assms by (auto simp: player_inv_def)
  next
    case False
    then show ?thesis
      using Close assms by simp
  qed
qed

lemma inv_run:
  assumes "player_inv pf v s"
  shows "\<exists>s'. run pf es s = Inr s' \<and> player_inv pf v s'"
  using assms
proof (induction es arbitrary: s)
  case Nil
  then show ?case by simp
next
  case (Cons e es)
  from inv_step [OF Cons.prems] obtain s1 where "step pf e s = Inr s1" "player_inv pf v s1"
    by blast
  with Cons.IH [of s1] show ?case by simp
qed

text \<open>On an item with at least one source, a session never throws, whatever happens.\<close>

lemma inv_session:
  assumes "sources v \<noteq> []"
  shows "\<exists>s. session pf v es = Inr s \<and> player_inv pf v s"
proof -
  from inv_open [OF assms] obtain s0 where "VideoPlayer_open pf v = Inr s0" "player_inv pf v s0"
    by blast
  with inv_run [of pf v s0 es] show ?thesis
    by (simp add: session_def)
qed

text \<open>On an item without sources, the effect throws when the player is opened.\<close>

lemma session_Inr_sources:
  assumes "session pf v es = Inr s"
  shows "sources v \<noteq> []"
proof
  assume "sources v = []"
  then have "VideoPlayer_open pf v = Inl TypeError"
    by (simp add: VideoPlayer_open_def VideoPlayer_init_def effect_def activeSource_def)
  with assms show False
    by (simp add: session_def)
qed

lemma inv_attached:
  assumes "player_inv pf v s"
  shows "attached s \<le> 1" "attached (run_cleanup s) = 0"
  using assms
  by (auto simp: player_inv_def attached_def run_cleanup_def split: option.splits)

lemma session_snoc:
  "session pf v (es @ [e]) = (case session pf v es of Inl x \<Rightarrow> Inl x | Inr s \<Rightarrow> step pf e s)"
proof -
  have "run pf (es @ [e]) s = (case run pf es s of Inl x \<Rightarrow> Inl x | Inr s' \<Rightarrow> step pf e s')"
    for s
    by (induction es arbitrary: s) (auto split: sum.splits)
  then show ?thesis
    by (simp add: session_def split: sum.splits)
qed

section \<open>Playback session: no playable path\<close>

text \<open>
  C6. In every state of a session, if the active source is adaptive, the streaming client
  is not supported and the element cannot play adaptive playlists itself, then
  \<open>canPlay\<close> is false, the element has no \<^verbatim>\<open>src\<close>, and no client instance is alive.
\<close>

theorem unsupported_adaptive_not_ready:
  assumes "session pf v es = Inr s"
    and "\<not> Hls_isSupported pf" and "\<not> canPlayType_hls pf"
    and "activeSource s = Some a" and "stype a = Hls"
  shows "canPlay s = False \<and> map_option el_src (el s) = Some None \<and> hls_live s = []"
proof -
  from session_Inr_sources [OF assms(1)] have "sources v \<noteq> []" .
  from inv_session [OF this, of pf es] assms(1) have i: "player_inv pf v s"
    by simp
  then have "a = sources v ! active s"
    using assms(4) by (auto simp: activeSource_def player_inv_def split: if_splits)
  then show ?thesis
    using i assms(2,3,5) by (auto simp: player_inv_def)
qed

text \<open>
  The item of the help text, on a platform without either capability: opened, switched
  to the progressive source and back to the adaptive one.
\<close>

theorem unsupported_adaptive_not_ready_witness:
  "canPlay (projr (session pf_none my_001 [Select 1, Select 0])) = False
   \<and> map_option el_src (el (projr (session pf_none my_001 [Select 1, Select 0]))) = Some None
   \<and> hls_live (projr (session pf_none my_001 [Select 1, Select 0])) = []"
proof -
  let ?s = "projr (session pf_none my_001 [Select 1, Select 0])"
  have a: "session pf_none my_001 [Select 1, Select 0] = Inr ?s"
    by code_simp
  have b: "\<not> Hls_isSupported pf_none" "\<not> canPlayType_hls pf_none"
    by (simp_all add: pf_none_def)
  have c: "activeSource ?s = Some (hd (sources my_001))"
    by code_simp
  have d: "stype (hd (sources my_001)) = Hls"
    by code_simp
  from unsupported_adaptive_not_ready [OF a b c d] show ?thesis .
qed

section \<open>Playback session: readiness of an adaptive source\<close>

text \<open>
  When the player is opened on an adaptive source and the streaming client is supported,
  \<open>canPlay\<close> is false after the attach, the event of another instance changes nothing,
  and the event \<^verbatim>\<open>MANIFEST_PARSED\<close> of the attached instance makes it true.
\<close>

lemma open_adaptive_client_not_ready:
  assumes "sources v \<noteq> []" "stype (hd (sources v)) = Hls" "Hls_isSupported pf"
  shows "\<exists>s. VideoPlayer_open pf v = Inr s \<and> \<not> canPlay s
             \<and> hls_live s = [\<lparr>hls_id = 0, hls_url = src (hd (sources v))\<rparr>]
             \<and> (\<forall>i. i \<noteq> 0 \<longrightarrow> step pf (ManifestParsed i) s = Inr s)
             \<and> (\<exists>s'. step pf (ManifestParsed 0) s = Inr s' \<and> canPlay s')"
  using assms
  by (auto simp: VideoPlayer_open_def VideoPlayer_init_def effect_def activeSource_def hd_conv_nth)

text \<open>
  C7. The effect does not reset \<open>canPlay\<close> when it attaches the streaming client. With
  the item of the help text and a supported client: after opening (adaptive source),
  switching to the progressive source and back to the adaptive one, a new client instance
  has just been attached, no \<^verbatim>\<open>MANIFEST_PARSED\<close> has been signalled, and \<open>canPlay\<close> is
  true, left over from the progressive source. Right after opening it is false, and the
  signal makes it true.
\<close>

theorem ready_stale_after_switch_to_adaptive:
  "\<not> isl (session pf_mse my_001 [Select 1, Select 0])
   \<and> activeSource (projr (session pf_mse my_001 [Select 1, Select 0]))
       = Some \<lparr>label = ''Auto (HLS)'', stype = Hls, src = ''https://.../playlist.m3u8''\<rparr>
   \<and> hls_live (projr (session pf_mse my_001 [Select 1, Select 0]))
       = [\<lparr>hls_id = 1, hls_url = ''https://.../playlist.m3u8''\<rparr>]
   \<and> canPlay (projr (session pf_mse my_001 [Select 1, Select 0]))
   \<and> \<not> canPlay (projr (session pf_mse my_001 []))
   \<and> canPlay (projr (session pf_mse my_001 [ManifestParsed 0]))"
  by code_simp

section \<open>Playback session: one attachment at a time\<close>

text \<open>
  C8. On an item with at least one source, whatever happens in a session: the state has
  at most one attached playback resource; a change of the active source is the cleanup
  followed by the effect, and after the cleanup nothing is attached; closing the player
  leaves nothing attached.
\<close>

theorem at_most_one_attached_resource:
  assumes "sources v \<noteq> []"
  shows "\<exists>s. session pf v es = Inr s
           \<and> attached s \<le> 1
           \<and> attached (run_cleanup s) = 0
           \<and> (\<forall>i. mounted s \<and> i < length (sources v) \<and> i \<noteq> active s
                 \<longrightarrow> step pf (Select i) s = effect pf ((run_cleanup s)\<lparr>active := i\<rparr>))
           \<and> (\<exists>s'. session pf v (es @ [Close]) = Inr s' \<and> attached s' = 0)"
proof -
  from inv_session [OF assms, of pf es] obtain s where
    s: "session pf v es = Inr s" "player_inv pf v s"
    by blast
  from inv_session [OF assms, of pf "es @ [Close]"] obtain s' where
    s': "session pf v (es @ [Close]) = Inr s'" "player_inv pf v s'"
    by blast
  have "step pf Close s = Inr s'"
    using s(1) s'(1) by (simp add: session_snoc)
  then have "attached s' = 0"
    using inv_attached(2) [OF s(2)] s(2)
    by (auto simp: attached_def player_inv_def split: if_splits option.splits)
  moreover have "video s = v"
    using s(2) by (simp add: player_inv_def)
  ultimately show ?thesis
    using s s'(1) inv_attached [OF s(2)] by (auto simp: setActive_def)
qed

text \<open>
  The item of the help text with a supported client, after three switches: one resource
  is attached, none after the cleanup, the next switch is cleanup then effect, and none
  is attached after closing.
\<close>

theorem at_most_one_attached_resource_witness:
  "attached (projr (session pf_mse my_001 [Select 1, Select 0, Select 1])) = 1
   \<and> attached (run_cleanup (projr (session pf_mse my_001 [Select 1, Select 0, Select 1]))) = 0
   \<and> step pf_mse (Select 0) (projr (session pf_mse my_001 [Select 1, Select 0, Select 1]))
       = effect pf_mse
           ((run_cleanup (projr (session pf_mse my_001 [Select 1, Select 0, Select 1])))
              \<lparr>active := 0\<rparr>)
   \<and> attached (projr (session pf_mse my_001 [Select 1, Select 0, Select 1, Close])) = 0"
proof -
  let ?s = "projr (session pf_mse my_001 [Select 1, Select 0, Select 1])"
  have ne: "sources my_001 \<noteq> []"
    by (simp add: my_001_def)
  have m: "mounted ?s \<and> 0 < length (sources my_001) \<and> 0 \<noteq> active ?s"
    by code_simp
  have p: "attached ?s \<noteq> 0"
    by code_simp
  from at_most_one_attached_resource [OF ne, of pf_mse "[Select 1, Select 0, Select 1]"]
  obtain s s' where
    s: "session pf_mse my_001 [Select 1, Select 0, Select 1] = Inr s" and
    le: "attached s \<le> 1" and
    cl: "attached (run_cleanup s) = 0" and
    sw: "\<forall>i. mounted s \<and> i < length (sources my_001) \<and> i \<noteq> active s
         \<longrightarrow> step pf_mse (Select i) s = effect pf_mse ((run_cleanup s)\<lparr>active := i\<rparr>)" and
    s': "session pf_mse my_001 ([Select 1, Select 0, Select 1] @ [Close]) = Inr s'" and
    z: "attached s' = 0"
    by blast
  have eq: "?s = s"
    using s by simp
  have "step pf_mse (Select 0) s = effect pf_mse ((run_cleanup s)\<lparr>active := 0\<rparr>)"
    using sw m unfolding eq by blast
  moreover have "attached s = 1"
    using le p unfolding eq by simp
  moreover have "projr (session pf_mse my_001 [Select 1, Select 0, Select 1, Close]) = s'"
    using s' by simp
  ultimately show ?thesis
    using cl z unfolding eq by (simp only:)
qed

section \<open>Playback session: the active source\<close>



end
